theory Spec2Isabelle
  imports Complex_Main
begin

section \<open>Python values\<close>

text \<open>
  The transformer and the validator are dynamically typed: chain elements, attribute
  values and syntax-tree children are tested with \<open>isinstance\<close>. The values that occur
  are modelled by one datatype. A number (\<open>int\<close> or \<open>float\<close>) is an exact rational:
  the rounding of IEEE doubles is not modelled. A dictionary has string keys and keeps
  insertion order. \<open>PTok t s\<close> is a Lark \<open>Token\<close> of type \<open>t\<close> and text \<open>s\<close> (a subclass
  of \<open>str\<close>), \<open>PTree d cs\<close> a Lark \<open>Tree\<close>. Equality of values is structural.
\<close>

datatype pyval =
    PNone
  | PBool bool
  | PNum rat
  | PStr string
  | PList "pyval list"
  | PTuple "pyval list"
  | PDict "(string \<times> pyval) list"
  | PTok string string
  | PTree string "pyval list"

type_synonym dict = "(string \<times> pyval) list"

text \<open>Truth value of a value, as \<open>if x\<close> and \<open>not x\<close> compute it.\<close>

fun truthy :: "pyval \<Rightarrow> bool" where
  "truthy PNone = False"
| "truthy (PBool b) = b"
| "truthy (PNum x) = (x \<noteq> 0)"
| "truthy (PStr s) = (s \<noteq> [])"
| "truthy (PList xs) = (xs \<noteq> [])"
| "truthy (PTuple xs) = (xs \<noteq> [])"
| "truthy (PDict d) = (d \<noteq> [])"
| "truthy (PTok t s) = (s \<noteq> [])"
| "truthy (PTree d cs) = True"

fun is_dict :: "pyval \<Rightarrow> bool" where
  "is_dict (PDict d) = True"
| "is_dict _ = False"

fun is_str :: "pyval \<Rightarrow> bool" where
  "is_str (PStr s) = True"
| "is_str (PTok t s) = True"
| "is_str _ = False"

text \<open>A list or a dict cannot be hashed; a tuple or a tree can when its parts can.\<close>

fun hashable :: "pyval \<Rightarrow> bool" where
  "hashable (PList xs) = False"
| "hashable (PDict d) = False"
| "hashable (PTuple xs) = (\<forall>x \<in> set xs. hashable x)"
| "hashable (PTree d cs) = (\<forall>x \<in> set cs. hashable x)"
| "hashable _ = True"

text \<open>
  Iteration (\<open>for x in v\<close>, \<open>enumerate(v)\<close>): a list or tuple yields its elements, a string
  its characters, a dict its keys; anything else raises \<open>TypeError\<close> (\<open>None\<close> here).
\<close>

fun py_iter :: "pyval \<Rightarrow> pyval list option" where
  "py_iter (PList xs) = Some xs"
| "py_iter (PTuple xs) = Some xs"
| "py_iter (PStr s) = Some (map (\<lambda>c. PStr [c]) s)"
| "py_iter (PTok t s) = Some (map (\<lambda>c. PStr [c]) s)"
| "py_iter (PDict d) = Some (map (\<lambda>kv. PStr (fst kv)) d)"
| "py_iter _ = None"

text \<open>The slice \<open>v[1:]\<close>, as the sequence of its elements; a dict cannot be sliced.\<close>

fun py_slice1 :: "pyval \<Rightarrow> pyval list option" where
  "py_slice1 (PDict d) = None"
| "py_slice1 v = map_option (drop 1) (py_iter v)"

text \<open>The operand of an arithmetic operation: \<open>bool\<close> is a subclass of \<open>int\<close>.\<close>

fun num_of :: "pyval \<Rightarrow> rat option" where
  "num_of (PNum x) = Some x"
| "num_of (PBool b) = Some (if b then 1 else 0)"
| "num_of _ = None"

text \<open>\<open>d.get(k)\<close>: the value, or \<open>None\<close> for a missing key.\<close>

definition dict_get :: "dict \<Rightarrow> string \<Rightarrow> pyval" where
  "dict_get d k = (case map_of d k of None \<Rightarrow> PNone | Some v \<Rightarrow> v)"

section \<open>The intermediate representation\<close>

text \<open>
  The dataclasses of \<open>dsl/parser.py\<close>. The fields \<open>id\<close>, \<open>type\<close> and \<open>loc\<close> hold whatever
  the transformer stored. The object table is a Python dict in insertion order: an
  association list, a well-formed one having distinct keys.
\<close>

record ObjectIR =
  obj_id :: pyval
  obj_type :: pyval
  attrs :: dict
  loc :: pyval

record PageIR =
  page_id :: pyval
  page_attrs :: dict
  page_loc :: pyval

record IR =
  objects :: "(pyval \<times> ObjectIR) list"
  series :: "pyval list"
  pages :: "(pyval \<times> PageIR) list"
  style :: dict
  meta :: dict

datatype error =
    DSLValidationError string
  | PyTypeError
  | PyIndexError
  | PyKeyError
  | PyAttributeError
  | ValueError_no_item
  | ValueError_missing_id pyval pyval
  | ValueError_duplicate_id pyval pyval
  | ValueError_no_params string
  | ValueError_float
  | ParseError string

section \<open>The validator (dsl/validator.py)\<close>

text \<open>Rule 1: \<open>len(set(ir.objects.keys())) != len(ir.objects)\<close>.\<close>

definition rule_id_dup :: "IR \<Rightarrow> error + unit" where
  "rule_id_dup ir =
     (if card (set (map fst (objects ir))) \<noteq> length (objects ir)
      then Inl (DSLValidationError ''E.ID.DUP'') else Inr ())"

text \<open>
  The loop \<open>for i, itm in enumerate(chain)\<close>; \<open>n\<close> is \<open>len(chain)\<close>, which is positive
  whenever the loop body runs.
\<close>

fun endpoint_loop :: "nat \<Rightarrow> nat \<Rightarrow> pyval list \<Rightarrow> error + unit" where
  "endpoint_loop n i [] = Inr ()"
| "endpoint_loop n i (itm # rest) =
     (if is_dict itm \<and> i \<noteq> 0 \<and> i \<noteq> n - 1
      then Inl (DSLValidationError ''E.CONNECT.ENDPOINT'')
      else endpoint_loop n (Suc i) rest)"

text \<open>The body of the loop \<open>for a, b in zip(chain, chain[1:])\<close>.\<close>

definition volt_pair :: "IR \<Rightarrow> pyval \<Rightarrow> pyval \<Rightarrow> error + unit" where
  "volt_pair ir a b =
     (if is_dict a \<or> is_dict b then Inr ()
      else if \<not> hashable a \<or> \<not> hashable b then Inl PyTypeError
      else case (map_of (objects ir) a, map_of (objects ir) b) of
          (Some oa, Some ob) \<Rightarrow>
            if \<not> hashable (obj_type oa) \<or> \<not> hashable (obj_type ob) then Inl PyTypeError
            else if obj_type oa \<in> {PStr ''TRANSFORMER'', PStr ''BUS''}
                  \<or> obj_type ob \<in> {PStr ''TRANSFORMER'', PStr ''BUS''} then Inr ()
            else
              let kva = dict_get (attrs oa) ''kv''; kvb = dict_get (attrs ob) ''kv'' in
              if kva = PNone \<or> kvb = PNone then Inr ()
              else (case (num_of kva, num_of kvb) of
                  (Some x, Some y) \<Rightarrow>
                    if \<bar>x - y\<bar> > (15 / 100) * max x y
                    then Inl (DSLValidationError ''E.VOLT.MISMATCH'') else Inr ()
                | _ \<Rightarrow> Inl PyTypeError)
        | _ \<Rightarrow> Inr ())"

fun volt_loop :: "IR \<Rightarrow> (pyval \<times> pyval) list \<Rightarrow> error + unit" where
  "volt_loop ir [] = Inr ()"
| "volt_loop ir ((a, b) # rest) =
     (case volt_pair ir a b of Inl e \<Rightarrow> Inl e | Inr _ \<Rightarrow> volt_loop ir rest)"

text \<open>The body of \<open>for chain in ir.series\<close>.\<close>

definition check_chain :: "IR \<Rightarrow> pyval \<Rightarrow> error + unit" where
  "check_chain ir chain =
     (if \<not> truthy chain then Inl (DSLValidationError ''E.CONNECT.EMPTY'')
      else case py_iter chain of
          None \<Rightarrow> Inl PyTypeError
        | Some xs \<Rightarrow>
            (case endpoint_loop (length xs) 0 xs of
                Inl e \<Rightarrow> Inl e
              | Inr _ \<Rightarrow>
                  (case py_slice1 chain of
                      None \<Rightarrow> Inl PyTypeError
                    | Some ys \<Rightarrow> volt_loop ir (zip xs ys))))"

fun chains_loop :: "IR \<Rightarrow> pyval list \<Rightarrow> error + unit" where
  "chains_loop ir [] = Inr ()"
| "chains_loop ir (chain # rest) =
     (case check_chain ir chain of Inl e \<Rightarrow> Inl e | Inr _ \<Rightarrow> chains_loop ir rest)"

definition rule_chains :: "IR \<Rightarrow> error + unit" where
  "rule_chains ir = chains_loop ir (series ir)"

text \<open>
  \<open>in_series = {oid for chain in ir.series for oid in chain if isinstance(oid, str)}\<close>,
  as the list of its elements; iterating a chain that is not iterable raises.
\<close>

fun in_series :: "pyval list \<Rightarrow> pyval list option" where
  "in_series [] = Some []"
| "in_series (chain # rest) =
     (case py_iter chain of
         None \<Rightarrow> None
       | Some xs \<Rightarrow> map_option (\<lambda>ys. filter is_str xs @ ys) (in_series rest))"

text \<open>Rule 4: every key of a \<open>BREAKER\<close> object is in \<open>in_series\<close>.\<close>

definition rule_breakers :: "IR \<Rightarrow> error + unit" where
  "rule_breakers ir =
     (case in_series (series ir) of
         None \<Rightarrow> Inl PyTypeError
       | Some ids \<Rightarrow>
           if list_ex (\<lambda>(k, ob). obj_type ob = PStr ''BREAKER'' \<and> k \<notin> set ids) (objects ir)
           then Inl (DSLValidationError ''E.PROT.BRK_UNUSED'') else Inr ())"

text \<open>
  \<open>validate\<close> only reads its argument. The run below pairs the outcome with the IR as it
  is after the call; each rule is a read of the state, and the first error ends the run.
\<close>

type_synonym 'a run = "IR \<Rightarrow> (error + 'a) \<times> IR"

definition reads :: "(IR \<Rightarrow> error + 'a) \<Rightarrow> 'a run" where
  "reads f = (\<lambda>ir. (f ir, ir))"

definition seq :: "unit run \<Rightarrow> unit run \<Rightarrow> unit run" where
  "seq m k = (\<lambda>ir. case m ir of (Inl e, ir') \<Rightarrow> (Inl e, ir') | (Inr _, ir') \<Rightarrow> k ir')"

definition validate_run :: "unit run" where
  "validate_run = seq (reads rule_id_dup) (seq (reads rule_chains) (reads rule_breakers))"

definition validate :: "IR \<Rightarrow> error + unit" where
  "validate ir = fst (validate_run ir)"

section \<open>The transformer (dsl/parser.py)\<close>

subsection \<open>Dictionary helpers\<close>

text \<open>\<open>d[k] = v\<close>: an existing key keeps its position, a new key goes last.\<close>

fun dict_set :: "'k \<Rightarrow> 'v \<Rightarrow> ('k \<times> 'v) list \<Rightarrow> ('k \<times> 'v) list" where
  "dict_set k v [] = [(k, v)]"
| "dict_set k v ((k', v') # d) =
     (if k' = k then (k, v) # d else (k', v') # dict_set k v d)"

text \<open>\<open>d.update(e)\<close>: the items of \<open>e\<close> are stored into \<open>d\<close> in order.\<close>

fun dict_update :: "('k \<times> 'v) list \<Rightarrow> ('k \<times> 'v) list \<Rightarrow> ('k \<times> 'v) list" where
  "dict_update d [] = d"
| "dict_update d ((k, v) # e) = dict_update (dict_set k v d) e"

text \<open>
  \<open>_merge_front(kvs_main, kvs_extra)\<close>: without extras (\<open>None\<close> or an empty dict) the main
  dict itself; otherwise a copy of the extras updated with the main dict.
\<close>

definition merge_front :: "dict \<Rightarrow> dict option \<Rightarrow> dict" where
  "merge_front kvs_main kvs_extra =
     (case kvs_extra of
         None \<Rightarrow> kvs_main
       | Some extra \<Rightarrow> if extra = [] then kvs_main else dict_update extra kvs_main)"

subsection \<open>Rule callbacks\<close>

text \<open>
  The class is decorated with \<open>v_args(meta=True)\<close>: Lark calls a rule callback with the
  node's position and one list holding the transformed children, so a callback declared
  \<open>f(self, meta, *children)\<close> receives a one-element argument tuple. The callbacks
  below take the position \<open>(line, column)\<close> and that argument tuple as a list.
\<close>

definition loc_of :: "int \<times> int \<Rightarrow> pyval" where
  "loc_of m = PTuple [PNum (of_int (fst m)), PNum (of_int (snd m))]"

fun is_tok :: "pyval \<Rightarrow> bool" where
  "is_tok (PTok t s) = True"
| "is_tok _ = False"

text \<open>The first loop of the parameter callbacks: list children are spliced in.\<close>

fun flatten_children :: "pyval list \<Rightarrow> pyval list" where
  "flatten_children [] = []"
| "flatten_children (PList xs # rest) = xs @ flatten_children rest"
| "flatten_children (child # rest) = child # flatten_children rest"

text \<open>
  The loop of \<open>bus_params\<close> over the flattened items, on the pair \<open>(id_value, kv_value)\<close>.
  A token whose text is one of the literals and whose type is \<open>NUMBER\<close> is passed to
  \<open>float\<close>, which rejects every one of these literals.
\<close>

fun bus_scan :: "pyval list \<Rightarrow> pyval \<times> pyval \<Rightarrow> error + (pyval \<times> pyval)" where
  "bus_scan [] st = Inr st"
| "bus_scan (PStr s # rest) (i, kv) =
     (if s \<notin> set [''id='', '','', ''kv='', '' ''] then bus_scan rest (PStr s, kv)
      else bus_scan rest (i, kv))"
| "bus_scan (PTok t s # rest) (i, kv) =
     (if s \<notin> set [''id='', '','', ''kv='', '' ''] then bus_scan rest (PTok t s, kv)
      else if t = ''ID'' then bus_scan rest (PStr s, kv)
      else if t = ''NUMBER'' then Inl ValueError_float
      else bus_scan rest (i, kv))"
| "bus_scan (PNum x # rest) (i, kv) = bus_scan rest (i, PNum x)"
| "bus_scan (PBool b # rest) (i, kv) = bus_scan rest (i, PBool b)"
| "bus_scan (item # rest) st = bus_scan rest st"

definition bus_params :: "int \<times> int \<Rightarrow> pyval list \<Rightarrow> error + pyval" where
  "bus_params m children =
     (case bus_scan (flatten_children children) (PNone, PNone) of
         Inl e \<Rightarrow> Inl e
       | Inr (i, kv) \<Rightarrow> Inr (PList [i, kv]))"

text \<open>The loop of \<open>line_params\<close>, on the list \<open>found_values\<close>.\<close>

fun line_scan :: "pyval list \<Rightarrow> pyval list \<Rightarrow> error + pyval list" where
  "line_scan [] found = Inr found"
| "line_scan (PStr s # rest) found =
     (if s \<notin> set [''id='', '','', ''kv='', ''type='', ''length_km='', ''thermal_A='', '' '']
      then line_scan rest (found @ [PStr s]) else line_scan rest found)"
| "line_scan (PTok t s # rest) found =
     (if s \<notin> set [''id='', '','', ''kv='', ''type='', ''length_km='', ''thermal_A='', '' '']
      then line_scan rest (found @ [PTok t s])
      else if t \<in> set [''ID'', ''LINE_TYPE''] then line_scan rest (found @ [PStr s])
      else if t = ''NUM'' then Inl ValueError_float
      else line_scan rest found)"
| "line_scan (PNum x # rest) found = line_scan rest (found @ [PNum x])"
| "line_scan (PBool b # rest) found = line_scan rest (found @ [PBool b])"
| "line_scan (item # rest) found = line_scan rest found"

definition line_params :: "int \<times> int \<Rightarrow> pyval list \<Rightarrow> error + pyval" where
  "line_params m children =
     (case line_scan (flatten_children children) [] of
         Inl e \<Rightarrow> Inl e
       | Inr found \<Rightarrow> Inr (PList (if length found \<ge> 5 then take 5 found else found)))"

text \<open>
  The search of \<open>add_bus\<close> and \<open>add_line\<close> for the result of the parameter callback: in a
  list child, the first element that is a list of \<open>n\<close> values not starting with a token;
  a dict child is the extension block.
\<close>

fun is_params :: "nat \<Rightarrow> pyval \<Rightarrow> bool" where
  "is_params n (PList (x # xs)) = (length (x # xs) = n \<and> \<not> is_tok x)"
| "is_params n _ = False"

fun scan_params :: "nat \<Rightarrow> pyval list \<Rightarrow> pyval option \<times> dict option
    \<Rightarrow> pyval option \<times> dict option" where
  "scan_params n [] st = st"
| "scan_params n (PList subs # rest) (res, extra) =
     scan_params n rest
       (case find (is_params n) subs of None \<Rightarrow> res | Some r \<Rightarrow> Some r, extra)"
| "scan_params n (PDict d # rest) (res, extra) = scan_params n rest (res, Some d)"
| "scan_params n (child # rest) st = scan_params n rest st"

text \<open>The tuple every \<open>add_*\<close> callback returns.\<close>

definition obj_tuple :: "string \<Rightarrow> dict \<Rightarrow> int \<times> int \<Rightarrow> pyval" where
  "obj_tuple typ kvs m = PTuple [PStr ''OBJ'', PStr typ, PDict kvs, loc_of m]"

definition add_bus :: "int \<times> int \<Rightarrow> pyval list \<Rightarrow> error + pyval" where
  "add_bus m children =
     (case scan_params 2 children (None, None) of
         (Some (PList [id_value, kv_value]), extra) \<Rightarrow>
           Inr (obj_tuple ''BUS''
                 (let kvs = [(''id'', id_value), (''kv'', kv_value)] in
                  case extra of None \<Rightarrow> kvs
                  | Some e \<Rightarrow> if e \<noteq> [] then merge_front kvs (Some e) else kvs) m)
       | _ \<Rightarrow> Inl (ValueError_no_params ''add_bus''))"

definition add_line :: "int \<times> int \<Rightarrow> pyval list \<Rightarrow> error + pyval" where
  "add_line m children =
     (case scan_params 5 children (None, None) of
         (Some (PList [id_value, kv_value, type_value, length_km_value, thermal_A_value]),
          extra) \<Rightarrow>
           Inr (obj_tuple ''LINE''
                 (let kvs = [(''id'', id_value), (''kv'', kv_value), (''type'', type_value),
                             (''length_km'', length_km_value),
                             (''thermal_A'', thermal_A_value)] in
                  case extra of None \<Rightarrow> kvs
                  | Some e \<Rightarrow> if e \<noteq> [] then merge_front kvs (Some e) else kvs) m)
       | _ \<Rightarrow> Inl (ValueError_no_params ''add_line''))"

subsection \<open>Statements\<close>

text \<open>The search of \<open>add_stmt\<close> for the 4-tuple, on the variable \<open>item\<close>.\<close>

fun is_tuple4 :: "pyval \<Rightarrow> bool" where
  "is_tuple4 (PTuple xs) = (length xs = 4)"
| "is_tuple4 _ = False"

fun scan_tree :: "pyval list \<Rightarrow> pyval option \<Rightarrow> pyval option" where
  "scan_tree [] item = item"
| "scan_tree (tree_child # rest) item =
     (if is_tuple4 tree_child then Some tree_child else scan_tree rest item)"

fun scan_sub :: "pyval list \<Rightarrow> pyval option \<Rightarrow> pyval option" where
  "scan_sub [] item = item"
| "scan_sub (PTree d cs # rest) item =
     (if cs \<noteq> [] then scan_sub rest (scan_tree cs item) else scan_sub rest item)"
| "scan_sub (subchild # rest) item =
     (if is_tuple4 subchild then Some subchild else scan_sub rest item)"

fun scan_children :: "pyval list \<Rightarrow> pyval option \<Rightarrow> pyval option" where
  "scan_children [] item = item"
| "scan_children (PList subs # rest) item =
     (case scan_sub subs item of None \<Rightarrow> scan_children rest None | Some it \<Rightarrow> Some it)"
| "scan_children (child # rest) item =
     (if is_tuple4 child then Some child else scan_children rest item)"

text \<open>\<open>loc[0]\<close>, evaluated when an error message is formatted.\<close>

fun py_item0 :: "pyval \<Rightarrow> error + pyval" where
  "py_item0 (PList (x # xs)) = Inr x"
| "py_item0 (PTuple (x # xs)) = Inr x"
| "py_item0 (PStr (c # s)) = Inr (PStr [c])"
| "py_item0 (PTok t (c # s)) = Inr (PStr [c])"
| "py_item0 (PList []) = Inl PyIndexError"
| "py_item0 (PTuple []) = Inl PyIndexError"
| "py_item0 (PStr []) = Inl PyIndexError"
| "py_item0 (PTok t []) = Inl PyIndexError"
| "py_item0 (PDict d) = Inl PyKeyError"
| "py_item0 _ = Inl PyTypeError"

text \<open>
  \<open>add_stmt\<close>: the id is read from the attribute dict of the item; a missing or empty
  id and an id already in the table are errors; otherwise the object is stored last.
\<close>

definition register :: "pyval \<Rightarrow> IR \<Rightarrow> error + IR" where
  "register item ir =
     (case item of
         PTuple [kind, typ, kvs, l] \<Rightarrow>
           (case kvs of
               PDict d \<Rightarrow>
                 let oid = dict_get d ''id'' in
                 if \<not> truthy oid then
                   (case py_item0 l of Inl e \<Rightarrow> Inl e
                    | Inr lno \<Rightarrow> Inl (ValueError_missing_id typ lno))
                 else if \<not> hashable oid then Inl PyTypeError
                 else if oid \<in> set (map fst (objects ir)) then
                   (case py_item0 l of Inl e \<Rightarrow> Inl e
                    | Inr lno \<Rightarrow> Inl (ValueError_duplicate_id oid lno))
                 else Inr (ir\<lparr>objects := objects ir @
                        [(oid, \<lparr>obj_id = oid, obj_type = typ, attrs = d, loc = l\<rparr>)]\<rparr>)
             | _ \<Rightarrow> Inl PyAttributeError)
       | _ \<Rightarrow> Inl ValueError_no_item)"

definition add_stmt :: "int \<times> int \<Rightarrow> pyval list \<Rightarrow> IR \<Rightarrow> error + IR" where
  "add_stmt m children ir =
     (case scan_children children None of
         None \<Rightarrow> Inl ValueError_no_item
       | Some item \<Rightarrow> register item ir)"

text \<open>\<open>connect_stmt\<close>: the last list child is the chain; it is stored with the position.\<close>

fun last_list :: "pyval list \<Rightarrow> pyval list \<Rightarrow> pyval list" where
  "last_list [] series_list = series_list"
| "last_list (PList xs # rest) series_list = last_list rest xs"
| "last_list (child # rest) series_list = last_list rest series_list"

definition connect_stmt :: "int \<times> int \<Rightarrow> pyval list \<Rightarrow> IR \<Rightarrow> error + IR" where
  "connect_stmt m children ir =
     Inr (ir\<lparr>series := series ir @ [PTuple [PList (last_list children []), loc_of m]]\<rparr>)"

text \<open>\<open>page_stmt\<close>: five positional values, an optional routing dict, optional extras.\<close>

definition page_stmt :: "int \<times> int \<Rightarrow> pyval list \<Rightarrow> IR \<Rightarrow> error + IR" where
  "page_stmt m c ir =
     (if length c < 5 then Inl PyIndexError
      else
        let kvs = [(''id'', c ! 0), (''title'', c ! 1), (''voltage_scope'', c ! 2),
                   (''buses'', c ! 3), (''bays'', c ! 4)];
            routing = (5 < length c \<and>
                       (case c ! 5 of
                           PDict d \<Rightarrow> ''pref'' \<in> set (map fst d) \<or> ''bus_spacing'' \<in> set (map fst d)
                         | _ \<Rightarrow> False));
            kvs = (if routing then dict_set ''routing'' (c ! 5) kvs else kvs);
            idx = (if routing then 6 else 5);
            kvs = (if idx < length c
                   then (case c ! idx of PDict e \<Rightarrow> dict_update kvs e | _ \<Rightarrow> kvs) else kvs);
            pid = dict_get kvs ''id''
        in if \<not> hashable pid then Inl PyTypeError
           else Inr (ir\<lparr>pages := dict_set pid
                        \<lparr>page_id = pid, page_attrs = kvs, page_loc = loc_of m\<rparr> (pages ir)\<rparr>))"

text \<open>
  A statement node of the syntax tree after its children were transformed: the rule, the
  position and the children. \<open>Other\<close> is a statement whose callback returns without
  touching the IR (\<open>style_stmt\<close>, \<open>label_stmt\<close>, \<open>layout_stmt\<close>, \<open>validate_stmt\<close>,
  \<open>emit_stmt\<close>).
\<close>

datatype stmt =
    AddStmt "int \<times> int" "pyval list"
  | ConnectStmt "int \<times> int" "pyval list"
  | PageStmt "int \<times> int" "pyval list"
  | Other

fun stmt_step :: "stmt \<Rightarrow> IR \<Rightarrow> error + IR" where
  "stmt_step (AddStmt m cs) ir = add_stmt m [PList cs] ir"
| "stmt_step (ConnectStmt m cs) ir = connect_stmt m [PList cs] ir"
| "stmt_step (PageStmt m cs) ir = page_stmt m [PList cs] ir"
| "stmt_step Other ir = Inr ir"

text \<open>\<open>tx.transform(tree)\<close>: the statements in source order; the first error ends it.\<close>

fun transform :: "stmt list \<Rightarrow> IR \<Rightarrow> error + IR" where
  "transform [] ir = Inr ir"
| "transform (s # rest) ir =
     (case stmt_step s ir of Inl e \<Rightarrow> Inl e | Inr ir' \<Rightarrow> transform rest ir')"

text \<open>\<open>IR()\<close>, the state of a new \<open>ToIR\<close>.\<close>

definition new_IR :: IR where
  "new_IR = \<lparr>objects = [], series = [], pages = [], style = [], meta = []\<rparr>"

text \<open>
  \<open>parse(text)\<close>. The grammar file and the Lark parser are not part of the sources: the
  front end, from the text to the statement nodes or a syntax error, is the parameter
  \<open>fe\<close>. An exception raised by a callback leaves \<open>parse\<close> as it is (only a syntax
  error is turned into \<open>ParseError\<close>).
\<close>

definition parse :: "(string \<Rightarrow> string + stmt list) \<Rightarrow> string \<Rightarrow> error + IR" where
  "parse fe text =
     (case fe text of
         Inl msg \<Rightarrow> Inl (ParseError msg)
       | Inr stmts \<Rightarrow> transform stmts new_IR)"





text \<open>The item \<open>add_stmt\<close> finds in a statement, and the id it carries.\<close>

fun stmt_item :: "stmt \<Rightarrow> pyval option" where
  "stmt_item (AddStmt m cs) = scan_children [PList cs] None"
| "stmt_item _ = None"

definition obj_inv :: "pyval \<times> ObjectIR \<Rightarrow> bool" where
  "obj_inv = (\<lambda>(k, ob). map_of (attrs ob) ''id'' = Some (obj_id ob)
                 \<and> truthy (obj_id ob) \<and> k = obj_id ob)"

section \<open>The rules in the words of the specification\<close>

text \<open>
  A terminal (a dict) at an index other than the first and the last of the chain.
\<close>

definition interior_terminal :: "pyval \<Rightarrow> bool" where
  "interior_terminal chain =
     (case py_iter chain of
         None \<Rightarrow> False
       | Some xs \<Rightarrow> list_ex (\<lambda>j. is_dict (xs ! j)) [1 ..< length xs - 1])"









section \<open>Example IRs\<close>

definition OPEN_END :: pyval where
  "OPEN_END = PDict [(''OPEN_END'', PBool True)]"

definition mk_obj :: "string \<Rightarrow> string \<Rightarrow> dict \<Rightarrow> pyval \<times> ObjectIR" where
  "mk_obj i t kvs =
     (PStr i, \<lparr>obj_id = PStr i, obj_type = PStr t, attrs = (''id'', PStr i) # kvs,
               loc = PTuple [PNum 1, PNum 1]\<rparr>)"

definition ir_of :: "(pyval \<times> ObjectIR) list \<Rightarrow> pyval list \<Rightarrow> IR" where
  "ir_of obs cs = \<lparr>objects = obs, series = cs, pages = [], style = [], meta = []\<rparr>"

definition ex_objs :: "(pyval \<times> ObjectIR) list" where
  "ex_objs =
     [mk_obj ''bus1'' ''BUS'' [(''kv'', PNum 138)],
      mk_obj ''brk1'' ''BREAKER'' [(''kv'', PNum 138)],
      mk_obj ''lineA'' ''LINE'' [(''kv'', PNum 138)],
      mk_obj ''lineB'' ''LINE'' [(''kv'', PNum 230)]]"

text \<open>
  Modelled from the spec: the grammar \<open>grammar_ebnf.lark\<close> is not part of the sources. The
  statement nodes of scenario 1 (\<open>ADD_BUS id=b1, kv=138\<close>, \<open>ADD_LINE id=l1, kv=138,
  type=OHL, length_km=10, thermal_A=1000\<close>, \<open>CONNECT series=[b1, l1]\<close>) follow the rule
  shapes quoted in the comments of \<open>parser.py\<close>: an \<open>ADD\<close> node holds the tuple its
  \<open>add_*\<close> callback returned, the \<open>CONNECT\<close> node holds the chain elements.
\<close>

definition bus_b1 :: pyval where
  "bus_b1 = obj_tuple ''BUS'' [(''id'', PStr ''b1''), (''kv'', PNum 138)] (1, 1)"

definition line_l1 :: pyval where
  "line_l1 =
     obj_tuple ''LINE''
       [(''id'', PStr ''l1''), (''kv'', PNum 138), (''type'', PTok ''LINE_TYPE'' ''OHL''),
        (''length_km'', PNum 10), (''thermal_A'', PNum 1000)] (2, 1)"

definition scenario1 :: "stmt list" where
  "scenario1 =
     [AddStmt (1, 1) [bus_b1], AddStmt (2, 1) [line_l1],
      ConnectStmt (3, 1) [PStr ''b1'', PStr ''l1'']]"

definition scenario1_ir :: IR where
  "scenario1_ir =
     \<lparr>objects =
        [(PStr ''b1'',
          \<lparr>obj_id = PStr ''b1'', obj_type = PStr ''BUS'',
           attrs = [(''id'', PStr ''b1''), (''kv'', PNum 138)],
           loc = PTuple [PNum 1, PNum 1]\<rparr>),
         (PStr ''l1'',
          \<lparr>obj_id = PStr ''l1'', obj_type = PStr ''LINE'',
           attrs = [(''id'', PStr ''l1''), (''kv'', PNum 138),
                    (''type'', PTok ''LINE_TYPE'' ''OHL''),
                    (''length_km'', PNum 10), (''thermal_A'', PNum 1000)],
           loc = PTuple [PNum 2, PNum 1]\<rparr>)],
      series = [PTuple [PList [PStr ''b1'', PStr ''l1''], PTuple [PNum 3, PNum 1]]],
      pages = [], style = [], meta = []\<rparr>"

definition front1 :: "string \<Rightarrow> string + stmt list" where
  "front1 text = Inr scenario1"


definition ir_endpoint :: IR where
  "ir_endpoint = ir_of ex_objs [PList [PStr ''brk1'', OPEN_END, PStr ''bus1'']]"

definition ir_empty_first :: IR where
  "ir_empty_first = ir_of ex_objs [PList [], PList [PStr ''brk1'', OPEN_END, PStr ''bus1'']]"

definition ir_mismatch :: IR where
  "ir_mismatch = ir_of ex_objs [PList [PStr ''brk1'', PStr ''lineA'', PStr ''lineB'']]"




definition ir_edge :: IR where
  "ir_edge = ir_of ex_objs [PList [OPEN_END, PStr ''brk1'', PStr ''bus1'']]"

section \<open>Properties of the validator\<close>

lemma validate_unfold:
  "validate ir =
     (case rule_id_dup ir of Inl e \<Rightarrow> Inl e
      | Inr _ \<Rightarrow> (case rule_chains ir of Inl e \<Rightarrow> Inl e | Inr _ \<Rightarrow> rule_breakers ir))"
  by (simp add: validate_def validate_run_def seq_def reads_def split: sum.splits)

lemma endpoint_loop_iff:
  "endpoint_loop n i xs = Inl e \<longleftrightarrow>
     e = DSLValidationError ''E.CONNECT.ENDPOINT'' \<and>
     (\<exists>j < length xs. is_dict (xs ! j) \<and> i + j \<noteq> 0 \<and> i + j \<noteq> n - 1)"
proof (induction xs arbitrary: i)
  case Nil
  then show ?case by simp
next
  case (Cons x xs)
  show ?case
  proof (cases "is_dict x \<and> i \<noteq> 0 \<and> i \<noteq> n - 1")
    case True
    then show ?thesis by auto
  next
    case False
    have "(\<exists>j < length (x # xs). is_dict ((x # xs) ! j) \<and> i + j \<noteq> 0 \<and> i + j \<noteq> n - 1)
        \<longleftrightarrow> (\<exists>j < length xs. is_dict (xs ! j) \<and> Suc i + j \<noteq> 0 \<and> Suc i + j \<noteq> n - 1)"
      (is "?L \<longleftrightarrow> ?R")
    proof
      assume ?L
      then obtain j where j: "j < length (x # xs)" "is_dict ((x # xs) ! j)" "i + j \<noteq> 0" "i + j \<noteq> n - 1"
        by blast
      with False obtain j' where "j = Suc j'" by (cases j) auto
      with j show ?R by auto
    next
      assume ?R
      then obtain j where "j < length xs" "is_dict (xs ! j)" "Suc i + j \<noteq> 0" "Suc i + j \<noteq> n - 1"
        by blast
      then show ?L by (intro exI[of _ "Suc j"]) auto
    qed
    with False Cons.IH[of "Suc i"] show ?thesis by auto
  qed
qed

lemma endpoint_loop_interior:
  "endpoint_loop (length xs) 0 xs = Inl (DSLValidationError ''E.CONNECT.ENDPOINT'')
     \<longleftrightarrow> list_ex (\<lambda>j. is_dict (xs ! j)) [1 ..< length xs - 1]"
proof -
  have "(\<exists>j < length xs. is_dict (xs ! j) \<and> 0 + j \<noteq> 0 \<and> 0 + j \<noteq> length xs - 1)
      \<longleftrightarrow> (\<exists>j \<in> set [1 ..< length xs - 1]. is_dict (xs ! j))" (is "?L \<longleftrightarrow> ?R")
  proof
    assume ?L
    then obtain j where j: "j < length xs" "is_dict (xs ! j)" "j \<noteq> 0" "j \<noteq> length xs - 1"
      by auto
    then have "1 \<le> j \<and> j < length xs - 1" by arith
    with j show ?R by auto
  next
    assume ?R
    then obtain j where j: "1 \<le> j" "j < length xs - 1" "is_dict (xs ! j)" by auto
    then have "j < length xs \<and> j \<noteq> 0 \<and> j \<noteq> length xs - 1" by arith
    with j show ?L by auto
  qed
  then show ?thesis by (simp add: endpoint_loop_iff list_ex_iff)
qed

lemma chains_loop_iff:
  "chains_loop ir cs = Inl e \<longleftrightarrow>
     (\<exists>pre c post. cs = pre @ c # post \<and> (\<forall>c' \<in> set pre. check_chain ir c' = Inr ())
        \<and> check_chain ir c = Inl e)"
proof (induction cs)
  case Nil
  then show ?case by simp
next
  case (Cons c cs)
  show ?case
  proof (cases "check_chain ir c")
    case (Inl e')
    show ?thesis
    proof
      assume "chains_loop ir (c # cs) = Inl e"
      with Inl have "e' = e" by simp
      with Inl show "\<exists>pre c' post. c # cs = pre @ c' # post \<and> (\<forall>c'' \<in> set pre. check_chain ir c'' = Inr ())
        \<and> check_chain ir c' = Inl e"
        by (intro exI[of _ "[]"] exI[of _ c] exI[of _ cs]) simp
    next
      assume "\<exists>pre c' post. c # cs = pre @ c' # post \<and> (\<forall>c'' \<in> set pre. check_chain ir c'' = Inr ())
        \<and> check_chain ir c' = Inl e"
      then obtain pre c' post where h: "c # cs = pre @ c' # post"
        "\<forall>c'' \<in> set pre. check_chain ir c'' = Inr ()" "check_chain ir c' = Inl e" by blast
      with Inl have "pre = []" by (cases pre) auto
      with h Inl show "chains_loop ir (c # cs) = Inl e" by simp
    qed
  next
    case (Inr u)
    have "(\<exists>pre c' post. c # cs = pre @ c' # post \<and> (\<forall>c'' \<in> set pre. check_chain ir c'' = Inr ())
        \<and> check_chain ir c' = Inl e) \<longleftrightarrow>
        (\<exists>pre c' post. cs = pre @ c' # post \<and> (\<forall>c'' \<in> set pre. check_chain ir c'' = Inr ())
        \<and> check_chain ir c' = Inl e)" (is "?L \<longleftrightarrow> ?R")
    proof
      assume ?L
      then obtain pre c' post where h: "c # cs = pre @ c' # post"
        "\<forall>c'' \<in> set pre. check_chain ir c'' = Inr ()" "check_chain ir c' = Inl e" by blast
      with Inr obtain pre' where "pre = c # pre'" by (cases pre) auto
      with h show ?R by auto
    next
      assume ?R
      then obtain pre c' post where h: "cs = pre @ c' # post"
        "\<forall>c'' \<in> set pre. check_chain ir c'' = Inr ()" "check_chain ir c' = Inl e" by blast
      with Inr show ?L by (intro exI[of _ "c # pre"] exI[of _ c'] exI[of _ post]) simp
    qed
    with Inr Cons.IH show ?thesis by simp
  qed
qed

lemma volt_pair_err:
  "volt_pair ir a b = Inl e \<Longrightarrow> e = DSLValidationError ''E.VOLT.MISMATCH'' \<or> e = PyTypeError"
  by (auto simp: volt_pair_def Let_def split: if_splits option.splits)

lemma volt_loop_err:
  "volt_loop ir ps = Inl e \<Longrightarrow> e = DSLValidationError ''E.VOLT.MISMATCH'' \<or> e = PyTypeError"
  by (induction ps) (auto split: sum.splits dest: volt_pair_err)

lemma check_chain_err:
  "check_chain ir c = Inl e \<Longrightarrow>
     e = DSLValidationError ''E.CONNECT.EMPTY'' \<or> e = DSLValidationError ''E.CONNECT.ENDPOINT''
     \<or> e = DSLValidationError ''E.VOLT.MISMATCH'' \<or> e = PyTypeError"
  by (auto simp: check_chain_def endpoint_loop_iff split: if_splits option.splits sum.splits
      dest: volt_loop_err)

lemma rule_chains_err:
  "rule_chains ir = Inl e \<Longrightarrow>
     e = DSLValidationError ''E.CONNECT.EMPTY'' \<or> e = DSLValidationError ''E.CONNECT.ENDPOINT''
     \<or> e = DSLValidationError ''E.VOLT.MISMATCH'' \<or> e = PyTypeError"
  unfolding rule_chains_def chains_loop_iff by (blast dest: check_chain_err)

lemma rule_breakers_err:
  "rule_breakers ir = Inl e \<Longrightarrow> e = DSLValidationError ''E.PROT.BRK_UNUSED'' \<or> e = PyTypeError"
  by (auto simp: rule_breakers_def split: option.splits if_splits)

lemma rule_id_dup_distinct:
  "distinct (map fst (objects ir)) \<Longrightarrow> rule_id_dup ir = Inr ()"
  using distinct_card[of "map fst (objects ir)"] by (simp add: rule_id_dup_def)

text \<open>
  C9. When the object table is a mapping (its keys are distinct) the number of distinct
  keys equals the size of the table, so rule 1 passes and \<open>validate\<close> never raises
  \<open>E.ID.DUP\<close>.
\<close>

theorem id_dup_unreachable:
  assumes "distinct (map fst (objects ir))"
  shows "card (set (map fst (objects ir))) = length (objects ir)
     \<and> rule_id_dup ir = Inr ()
     \<and> validate ir \<noteq> Inl (DSLValidationError ''E.ID.DUP'')"
proof -
  have c: "card (set (map fst (objects ir))) = length (objects ir)"
    using assms distinct_card[of "map fst (objects ir)"] by simp
  have r: "rule_id_dup ir = Inr ()" using assms by (rule rule_id_dup_distinct)
  have "validate ir \<noteq> Inl (DSLValidationError ''E.ID.DUP'')"
  proof
    assume v: "validate ir = Inl (DSLValidationError ''E.ID.DUP'')"
    show False
    proof (cases "rule_chains ir")
      case (Inl e)
      with v r have "e = DSLValidationError ''E.ID.DUP''" by (simp add: validate_unfold)
      with rule_chains_err[OF Inl] show False by simp
    next
      case (Inr u)
      with v r have "rule_breakers ir = Inl (DSLValidationError ''E.ID.DUP'')"
        by (simp add: validate_unfold)
      from rule_breakers_err[OF this] show False by simp
    qed
  qed
  with c r show ?thesis by simp
qed

theorem id_dup_unreachable_witness:
  "distinct (map fst (objects ir_mismatch))
   \<and> card (set (map fst (objects ir_mismatch))) = length (objects ir_mismatch)
   \<and> rule_id_dup ir_mismatch = Inr ()
   \<and> validate ir_mismatch \<noteq> Inl (DSLValidationError ''E.ID.DUP'')"
proof -
  have d: "distinct (map fst (objects ir_mismatch))"
    by (simp add: ir_mismatch_def ir_of_def ex_objs_def mk_obj_def)
  from d id_dup_unreachable[OF d] show ?thesis by simp
qed



lemma interior_truthy: "interior_terminal c \<Longrightarrow> truthy c"
  by (cases c) (auto simp: interior_terminal_def list_ex_iff)

lemma check_chain_endpoint:
  "check_chain ir c = Inl (DSLValidationError ''E.CONNECT.ENDPOINT'') \<longleftrightarrow> interior_terminal c"
proof (cases "truthy c")
  case False
  then show ?thesis using interior_truthy[of c] by (auto simp: check_chain_def)
next
  case True
  show ?thesis
  proof (cases "py_iter c")
    case None
    with True show ?thesis by (simp add: check_chain_def interior_terminal_def)
  next
    case (Some xs)
    have it: "interior_terminal c
       \<longleftrightarrow> endpoint_loop (length xs) 0 xs = Inl (DSLValidationError ''E.CONNECT.ENDPOINT'')"
      unfolding interior_terminal_def Some endpoint_loop_interior by simp
    show ?thesis
    proof (cases "endpoint_loop (length xs) 0 xs")
      case (Inl e)
      then have "e = DSLValidationError ''E.CONNECT.ENDPOINT''" by (simp add: endpoint_loop_iff)
      with Inl True Some it show ?thesis
        by (simp add: check_chain_def)
    next
      case (Inr u)
      then have ni: "\<not> interior_terminal c"
        using it by simp
      have "check_chain ir c \<noteq> Inl (DSLValidationError ''E.CONNECT.ENDPOINT'')"
        using True Some Inr
        by (auto simp: check_chain_def split: option.splits dest: volt_loop_err)
      with ni show ?thesis by simp
    qed
  qed
qed

text \<open>
  C3 as stated fails: in \<open>ir_empty_first\<close> the second chain has a terminal between two
  identifiers, yet \<open>validate\<close> raises \<open>E.CONNECT.EMPTY\<close> for the first chain.
\<close>

theorem endpoint_rule_counterexample:
  "series ir_empty_first = [PList [], PList [PStr ''brk1'', OPEN_END, PStr ''bus1'']]
   \<and> interior_terminal (PList [PStr ''brk1'', OPEN_END, PStr ''bus1''])
   \<and> validate ir_empty_first = Inl (DSLValidationError ''E.CONNECT.EMPTY'')"
  by (simp add: ir_empty_first_def interior_terminal_def validate_unfold rule_id_dup_def rule_chains_def check_chain_def rule_breakers_def
      volt_pair_def dict_get_def ir_of_def ex_objs_def mk_obj_def OPEN_END_def)

text \<open>
  C3 (amended). \<open>validate\<close> raises \<open>E.CONNECT.ENDPOINT\<close> exactly when some chain has a
  terminal at an index other than the first and the last and every chain before it passes
  the per-chain checks. A terminal at the first or last index is not an interior terminal
  and never triggers the error.
\<close>

theorem endpoint_rule:
  assumes "distinct (map fst (objects ir))"
  shows "validate ir = Inl (DSLValidationError ''E.CONNECT.ENDPOINT'') \<longleftrightarrow>
     (\<exists>pre c post. series ir = pre @ c # post
        \<and> (\<forall>c' \<in> set pre. check_chain ir c' = Inr ()) \<and> interior_terminal c)"
proof -
  have r: "rule_id_dup ir = Inr ()" using assms by (rule rule_id_dup_distinct)
  have "validate ir = Inl (DSLValidationError ''E.CONNECT.ENDPOINT'')
     \<longleftrightarrow> rule_chains ir = Inl (DSLValidationError ''E.CONNECT.ENDPOINT'')"
    using r by (auto simp: validate_unfold split: sum.splits dest: rule_breakers_err)
  then show ?thesis
    by (simp add: rule_chains_def chains_loop_iff check_chain_endpoint)
qed

theorem endpoint_rule_witness:
  "distinct (map fst (objects ir_endpoint))
   \<and> validate ir_endpoint = Inl (DSLValidationError ''E.CONNECT.ENDPOINT'')
   \<and> distinct (map fst (objects ir_edge))
   \<and> \<not> interior_terminal (PList [OPEN_END, PStr ''brk1'', PStr ''bus1''])
   \<and> validate ir_edge \<noteq> Inl (DSLValidationError ''E.CONNECT.ENDPOINT'')"
proof -
  have d: "distinct (map fst (objects ir_endpoint))"
    by (simp add: ir_endpoint_def ir_of_def ex_objs_def mk_obj_def)
  have d': "distinct (map fst (objects ir_edge))"
    by (simp add: ir_edge_def ir_of_def ex_objs_def mk_obj_def)
  have "\<exists>pre c post. series ir_endpoint = pre @ c # post
        \<and> (\<forall>c' \<in> set pre. check_chain ir_endpoint c' = Inr ()) \<and> interior_terminal c"
    by (intro exI[of _ "[]"] exI[of _ "PList [PStr ''brk1'', OPEN_END, PStr ''bus1'']"]
        exI[of _ "[]"]) (simp add: ir_endpoint_def ir_of_def interior_terminal_def OPEN_END_def)
  with endpoint_rule[OF d]
  have v: "validate ir_endpoint = Inl (DSLValidationError ''E.CONNECT.ENDPOINT'')" by simp
  have n: "\<not> interior_terminal (PList [OPEN_END, PStr ''brk1'', PStr ''bus1''])"
    by (simp add: interior_terminal_def OPEN_END_def)
  have "\<not> (\<exists>pre c post. series ir_edge = pre @ c # post
        \<and> (\<forall>c' \<in> set pre. check_chain ir_edge c' = Inr ()) \<and> interior_terminal c)"
  proof
    assume "\<exists>pre c post. series ir_edge = pre @ c # post
        \<and> (\<forall>c' \<in> set pre. check_chain ir_edge c' = Inr ()) \<and> interior_terminal c"
    then obtain pre c post where h: "series ir_edge = pre @ c # post" "interior_terminal c"
      by blast
    from h(1) have "c \<in> set (series ir_edge)" by simp
    then have "c = PList [OPEN_END, PStr ''brk1'', PStr ''bus1'']"
      by (simp add: ir_edge_def ir_of_def)
    with h(2) n show False by simp
  qed
  with endpoint_rule[OF d']
  have "validate ir_edge \<noteq> Inl (DSLValidationError ''E.CONNECT.ENDPOINT'')" by simp
  with d d' v n show ?thesis by simp
qed














section \<open>Properties of the transformer\<close>

lemma map_of_dict_set: "map_of (dict_set k v d) = (map_of d)(k \<mapsto> v)"
  by (induction d) (auto simp: fun_eq_iff)

lemma map_of_dict_update:
  "distinct (map fst e) \<Longrightarrow>
     map_of (dict_update d e) k = (case map_of e k of Some v \<Rightarrow> Some v | None \<Rightarrow> map_of d k)"
proof (induction e arbitrary: d)
  case Nil
  then show ?case by simp
next
  case (Cons p e)
  obtain k' v' where p: "p = (k', v')" by (cases p)
  from Cons.prems p have d: "distinct (map fst e)" and n: "k' \<notin> fst ` set e" by auto
  from n have "map_of e k' = None" by (simp add: map_of_eq_None_iff)
  with Cons.IH[OF d, of "dict_set k' v' d"] p show ?case
    by (auto simp: map_of_dict_set split: option.splits)
qed

text \<open>
  C6. For a mandatory dict \<open>M\<close> (a dict: its keys are distinct) and an optional extension
  \<open>E\<close>, the merged dict maps a key of \<open>M\<close> to its value in \<open>M\<close> and a key that is only
  in \<open>E\<close> to its value in \<open>E\<close>; the mandatory attributes win on collision, and without
  an extension (absent or empty) the result is \<open>M\<close>.
\<close>

theorem merge_front_precedence:
  assumes "distinct (map fst M)"
  shows "map_of (merge_front M E) k =
           (case map_of M k of
               Some v \<Rightarrow> Some v
             | None \<Rightarrow> (case E of None \<Rightarrow> None | Some e \<Rightarrow> map_of e k))
         \<and> merge_front M None = M \<and> merge_front M (Some []) = M"
proof -
  have "map_of (merge_front M E) k =
           (case map_of M k of
               Some v \<Rightarrow> Some v
             | None \<Rightarrow> (case E of None \<Rightarrow> None | Some e \<Rightarrow> map_of e k))"
  proof (cases E)
    case None
    then show ?thesis by (simp add: merge_front_def split: option.splits)
  next
    case (Some e)
    show ?thesis
    proof (cases "e = []")
      case True
      with Some show ?thesis by (simp add: merge_front_def split: option.splits)
    next
      case False
      with Some map_of_dict_update[OF assms, of e k] show ?thesis
        by (simp add: merge_front_def split: option.splits)
    qed
  qed
  then show ?thesis by (simp add: merge_front_def)
qed

theorem merge_front_precedence_witness:
  "distinct (map fst [(''id'', PStr ''b1''), (''kv'', PNum 138)])
   \<and> merge_front [(''id'', PStr ''b1''), (''kv'', PNum 138)]
        (Some [(''kv'', PNum 999), (''rating'', PNum 5)])
      = [(''kv'', PNum 138), (''rating'', PNum 5), (''id'', PStr ''b1'')]
   \<and> map_of (merge_front [(''id'', PStr ''b1''), (''kv'', PNum 138)]
        (Some [(''kv'', PNum 999), (''rating'', PNum 5)])) ''kv'' = Some (PNum 138)
   \<and> map_of (merge_front [(''id'', PStr ''b1''), (''kv'', PNum 138)]
        (Some [(''kv'', PNum 999), (''rating'', PNum 5)])) ''rating'' = Some (PNum 5)"
proof -
  have d: "distinct (map fst [(''id'', PStr ''b1''), (''kv'', PNum 138)])" by simp
  have m: "merge_front [(''id'', PStr ''b1''), (''kv'', PNum 138)]
        (Some [(''kv'', PNum 999), (''rating'', PNum 5)])
      = [(''kv'', PNum 138), (''rating'', PNum 5), (''id'', PStr ''b1'')]"
    by (simp add: merge_front_def)
  from d m
    merge_front_precedence[OF d, of "Some [(''kv'', PNum 999), (''rating'', PNum 5)]" "''kv''"]
    merge_front_precedence[OF d, of "Some [(''kv'', PNum 999), (''rating'', PNum 5)]" "''rating''"]
  show ?thesis by simp
qed

lemma transform_append:
  "transform (xs @ ys) ir =
     (case transform xs ir of Inl e \<Rightarrow> Inl e | Inr ir' \<Rightarrow> transform ys ir')"
  by (induction xs arbitrary: ir) (auto split: sum.splits)

lemma register_objects:
  "register item ir = Inr ir' \<Longrightarrow>
     \<exists>kind typ d l. item = PTuple [kind, typ, PDict d, l]
       \<and> truthy (dict_get d ''id'') \<and> hashable (dict_get d ''id'')
       \<and> dict_get d ''id'' \<notin> set (map fst (objects ir))
       \<and> ir' = ir\<lparr>objects := objects ir @
            [(dict_get d ''id'',
              \<lparr>obj_id = dict_get d ''id'', obj_type = typ, attrs = d, loc = l\<rparr>)]\<rparr>"
  by (auto simp: register_def Let_def split: pyval.splits list.splits if_splits sum.splits)


lemma add_stmt_item:
  "stmt_item s = Some item \<Longrightarrow> stmt_step s ir = register item ir"
  by (cases s) (simp_all add: add_stmt_def)

lemma stmt_step_objects:
  "stmt_step s ir = Inr ir' \<Longrightarrow>
     objects ir' = objects ir \<or>
     (\<exists>item. stmt_item s = Some item \<and> register item ir = Inr ir')"
proof (cases s)
  case (AddStmt m cs)
  assume "stmt_step s ir = Inr ir'"
  with AddStmt show ?thesis by (auto simp: add_stmt_def split: option.splits)
next
  case (ConnectStmt m cs)
  assume "stmt_step s ir = Inr ir'"
  with ConnectStmt show ?thesis by (auto simp: connect_stmt_def)
next
  case (PageStmt m cs)
  assume "stmt_step s ir = Inr ir'"
  with PageStmt show ?thesis
    by (auto simp: page_stmt_def Let_def split: if_splits)
next
  case Other
  assume "stmt_step s ir = Inr ir'"
  with Other show ?thesis by simp
qed

lemma stmt_step_keys:
  "stmt_step s ir = Inr ir' \<Longrightarrow> set (map fst (objects ir)) \<subseteq> set (map fst (objects ir'))"
  by (drule stmt_step_objects) (auto dest!: register_objects)

lemma transform_keys:
  "transform ss ir = Inr ir' \<Longrightarrow> set (map fst (objects ir)) \<subseteq> set (map fst (objects ir'))"
proof (induction ss arbitrary: ir)
  case Nil
  then show ?case by simp
next
  case (Cons s ss)
  then obtain ir1 where s: "stmt_step s ir = Inr ir1" and r: "transform ss ir1 = Inr ir'"
    by (auto split: sum.splits)
  from stmt_step_keys[OF s] Cons.IH[OF r] show ?case by blast
qed

lemma stmt_step_inv:
  assumes "stmt_step s ir = Inr ir'" and "list_all obj_inv (objects ir)"
  shows "list_all obj_inv (objects ir')"
proof -
  from stmt_step_objects[OF assms(1)]
  consider "objects ir' = objects ir"
    | item where "register item ir = Inr ir'" by blast
  then show ?thesis
  proof cases
    case 1
    with assms(2) show ?thesis by simp
  next
    case 2
    from register_objects[OF 2] obtain ty d l
      where tr: "truthy (dict_get d ''id'')"
        and ap: "objects ir' = objects ir @
            [(dict_get d ''id'',
              \<lparr>obj_id = dict_get d ''id'', obj_type = ty, attrs = d, loc = l\<rparr>)]"
      by auto
    from tr have "map_of d ''id'' = Some (dict_get d ''id'')"
      by (cases "map_of d ''id''") (auto simp: dict_get_def)
    with tr ap assms(2) show ?thesis by (simp add: obj_inv_def)
  qed
qed

lemma transform_inv:
  "transform ss ir = Inr ir' \<Longrightarrow> list_all obj_inv (objects ir)
     \<Longrightarrow> list_all obj_inv (objects ir')"
proof (induction ss arbitrary: ir)
  case Nil
  then show ?case by simp
next
  case (Cons s ss)
  then obtain ir1 where s: "stmt_step s ir = Inr ir1" and r: "transform ss ir1 = Inr ir'"
    by (auto split: sum.splits)
  from Cons.IH[OF r stmt_step_inv[OF s Cons.prems(2)]] show ?case .
qed

text \<open>
  C10. Every object in the table of an IR produced by a successful parse has the key
  \<open>id\<close> in its attributes, its value is the object's \<open>id\<close> field, that id is non-empty
  (truthy), and the object is stored under that id.
\<close>

theorem registered_id_invariant:
  assumes "parse fe text = Inr ir"
  shows "list_all obj_inv (objects ir)"
proof -
  from assms obtain ss where "transform ss new_IR = Inr ir"
    by (auto simp: parse_def split: sum.splits)
  moreover have "list_all obj_inv (objects new_IR)" by (simp add: new_IR_def)
  ultimately show ?thesis by (rule transform_inv)
qed

lemma scenario1_transform: "transform scenario1 new_IR = Inr scenario1_ir"
  by (simp add: scenario1_def scenario1_ir_def new_IR_def add_stmt_def register_def
      connect_stmt_def bus_b1_def line_l1_def obj_tuple_def loc_of_def dict_get_def Let_def)

theorem registered_id_invariant_witness:
  "parse front1 ''ADD_BUS id=b1, kv=138'' = Inr scenario1_ir
   \<and> list_all obj_inv (objects scenario1_ir)"
proof -
  have p: "parse front1 ''ADD_BUS id=b1, kv=138'' = Inr scenario1_ir"
    by (simp add: parse_def front1_def scenario1_transform)
  from p registered_id_invariant[OF p] show ?thesis by simp
qed

lemma register_dup:
  assumes "dict_get kvs ''id'' = i" and "truthy i" and "hashable i"
    and "i \<in> set (map fst (objects ir))"
  shows "register (obj_tuple typ kvs m) ir
     = Inl (ValueError_duplicate_id i (PNum (of_int (fst m))))"
  using assms by (simp add: register_def obj_tuple_def loc_of_def)

lemma register_adds:
  assumes "register (obj_tuple typ kvs m) ir = Inr ir'"
  shows "dict_get kvs ''id'' \<in> set (map fst (objects ir')) \<and> hashable (dict_get kvs ''id'')"
  using register_objects[OF assms] by (auto simp: obj_tuple_def)

text \<open>
  C4 as stated fails: between two \<open>ADD_BUS\<close> statements with the id \<open>b1\<close> stands an
  \<open>ADD\<close> statement whose id is empty; the transformation fails at that statement with the
  missing-id error, not with a duplicate-id error.
\<close>

theorem duplicate_id_rejected_counterexample:
  "transform
     [AddStmt (1, 1) [obj_tuple ''BUS'' [(''id'', PStr ''b1''), (''kv'', PNum 138)] (1, 1)],
      AddStmt (2, 1) [obj_tuple ''BUS'' [(''id'', PStr ''''), (''kv'', PNum 138)] (2, 1)],
      AddStmt (3, 1) [obj_tuple ''BUS'' [(''id'', PStr ''b1''), (''kv'', PNum 138)] (3, 1)]]
     new_IR = Inl (ValueError_missing_id (PStr ''BUS'') (PNum 2))"
  by (simp add: new_IR_def add_stmt_def register_def obj_tuple_def loc_of_def dict_get_def
      Let_def)

text \<open>
  C4 (amended). An input with two \<open>ADD\<close> statements carrying the same non-empty id, of
  whatever kinds, is never transformed into an IR, so no validator rule runs on it; and
  whenever the statements up to the second of the two are transformed without error, the
  error is the duplicate-id error raised at that second statement.
\<close>

theorem duplicate_id_rejected:
  assumes s1: "stmt_item s1 = Some (obj_tuple typ1 kvs1 m1)"
    and s2: "stmt_item s2 = Some (obj_tuple typ2 kvs2 m2)"
    and i1: "dict_get kvs1 ''id'' = i" and i2: "dict_get kvs2 ''id'' = i"
    and tr: "truthy i"
  shows "(\<exists>e. transform (pre @ s1 # mid @ s2 # post) new_IR = Inl e)
     \<and> (\<forall>ir. transform (pre @ s1 # mid) new_IR = Inr ir \<longrightarrow>
           transform (pre @ s1 # mid @ s2 # post) new_IR
             = Inl (ValueError_duplicate_id i (PNum (of_int (fst m2)))))"
proof -
  have dup: "transform (pre @ s1 # mid @ s2 # post) new_IR
             = Inl (ValueError_duplicate_id i (PNum (of_int (fst m2))))"
    if ok: "transform (pre @ s1 # mid) new_IR = Inr ir" for ir
  proof -
    from ok obtain ir0 where p: "transform pre new_IR = Inr ir0"
      and q: "transform (s1 # mid) ir0 = Inr ir"
      by (auto simp: transform_append split: sum.splits)
    from q obtain ir1 where a: "stmt_step s1 ir0 = Inr ir1"
      and b: "transform mid ir1 = Inr ir"
      by (auto split: sum.splits)
    from a have "register (obj_tuple typ1 kvs1 m1) ir0 = Inr ir1"
      by (simp add: add_stmt_item[OF s1])
    from register_adds[OF this] i1 have k1: "i \<in> set (map fst (objects ir1))"
      and h: "hashable i" by auto
    from transform_keys[OF b] k1 have "i \<in> set (map fst (objects ir))" by blast
    from register_dup[OF i2 tr h this]
    have "stmt_step s2 ir = Inl (ValueError_duplicate_id i (PNum (of_int (fst m2))))"
      by (simp add: add_stmt_item[OF s2])
    then have st: "transform (s2 # post) ir
       = Inl (ValueError_duplicate_id i (PNum (of_int (fst m2))))" by simp
    have "transform ((pre @ s1 # mid) @ s2 # post) new_IR =
        (case transform (pre @ s1 # mid) new_IR of
            Inl e \<Rightarrow> Inl e | Inr ir' \<Rightarrow> transform (s2 # post) ir')"
      by (rule transform_append)
    also have "\<dots> = transform (s2 # post) ir" by (simp only: ok sum.case)
    finally show ?thesis using st by simp
  qed
  have "\<exists>e. transform (pre @ s1 # mid @ s2 # post) new_IR = Inl e"
  proof (cases "transform (pre @ s1 # mid) new_IR")
    case (Inl e)
    have "transform ((pre @ s1 # mid) @ s2 # post) new_IR =
        (case transform (pre @ s1 # mid) new_IR of
            Inl e \<Rightarrow> Inl e | Inr ir' \<Rightarrow> transform (s2 # post) ir')"
      by (rule transform_append)
    also have "\<dots> = Inl e" by (simp only: Inl sum.case)
    finally show ?thesis by simp
  next
    case (Inr ir)
    from dup[OF this] show ?thesis by blast
  qed
  with dup show ?thesis by blast
qed

theorem duplicate_id_rejected_witness:
  "transform [AddStmt (1, 1) [bus_b1],
              AddStmt (2, 1) [obj_tuple ''LINE'' [(''id'', PStr ''b1''), (''kv'', PNum 138)] (2, 1)]]
     new_IR = Inl (ValueError_duplicate_id (PStr ''b1'') (PNum 2))"
proof -
  have a: "stmt_item (AddStmt (1, 1) [bus_b1])
      = Some (obj_tuple ''BUS'' [(''id'', PStr ''b1''), (''kv'', PNum 138)] (1, 1))"
    by (simp add: bus_b1_def obj_tuple_def)
  have b: "stmt_item (AddStmt (2, 1)
        [obj_tuple ''LINE'' [(''id'', PStr ''b1''), (''kv'', PNum 138)] (2, 1)])
      = Some (obj_tuple ''LINE'' [(''id'', PStr ''b1''), (''kv'', PNum 138)] (2, 1))"
    by (simp add: obj_tuple_def)
  have c: "dict_get [(''id'', PStr ''b1''), (''kv'', PNum 138)] ''id'' = PStr ''b1''"
    by (simp add: dict_get_def)
  have t: "truthy (PStr ''b1'')" by simp
  have ok: "transform ([] @ AddStmt (1, 1) [bus_b1] # []) new_IR
      = Inr (new_IR\<lparr>objects :=
          [(PStr ''b1'', \<lparr>obj_id = PStr ''b1'', obj_type = PStr ''BUS'',
             attrs = [(''id'', PStr ''b1''), (''kv'', PNum 138)],
             loc = PTuple [PNum 1, PNum 1]\<rparr>)]\<rparr>)"
    by (simp add: new_IR_def add_stmt_def register_def bus_b1_def obj_tuple_def loc_of_def
        dict_get_def Let_def)
  from duplicate_id_rejected[OF a b c c t, of "[]" "[]" "[]"] ok show ?thesis by simp
qed

lemma parser_chain_type_error:
  "\<not> is_dict l \<Longrightarrow> check_chain ir (PTuple [PList xs, l]) = Inl PyTypeError"
  by (simp add: check_chain_def volt_pair_def)

lemma stmt_step_series:
  assumes "stmt_step s ir = Inr ir'"
    and "\<forall>c \<in> set (series ir). \<exists>xs l. c = PTuple [PList xs, l] \<and> \<not> is_dict l"
  shows "\<forall>c \<in> set (series ir'). \<exists>xs l. c = PTuple [PList xs, l] \<and> \<not> is_dict l"
proof (cases s)
  case (AddStmt m cs)
  with assms(1) obtain item where "register item ir = Inr ir'"
    by (auto simp: add_stmt_def split: option.splits)
  from register_objects[OF this] have "series ir' = series ir" by auto
  with assms(2) show ?thesis by simp
next
  case (ConnectStmt m cs)
  with assms show ?thesis by (auto simp: connect_stmt_def loc_of_def)
next
  case (PageStmt m cs)
  with assms(1) have "series ir' = series ir"
    by (auto simp: page_stmt_def Let_def split: if_splits)
  with assms(2) show ?thesis by simp
next
  case Other
  with assms show ?thesis by simp
qed

lemma stmt_step_distinct:
  assumes "stmt_step s ir = Inr ir'" and "distinct (map fst (objects ir))"
  shows "distinct (map fst (objects ir'))"
proof -
  from stmt_step_objects[OF assms(1)]
  consider "objects ir' = objects ir" | item where "register item ir = Inr ir'" by blast
  then show ?thesis
  proof cases
    case 1
    with assms(2) show ?thesis by simp
  next
    case 2
    from register_objects[OF 2] assms(2) show ?thesis by auto
  qed
qed

lemma transform_parser_ir:
  "transform ss ir = Inr ir' \<Longrightarrow> distinct (map fst (objects ir)) \<Longrightarrow>
     \<forall>c \<in> set (series ir). \<exists>xs l. c = PTuple [PList xs, l] \<and> \<not> is_dict l \<Longrightarrow>
     distinct (map fst (objects ir')) \<and>
     (\<forall>c \<in> set (series ir'). \<exists>xs l. c = PTuple [PList xs, l] \<and> \<not> is_dict l)"
proof (induction ss arbitrary: ir)
  case Nil
  then show ?case by simp
next
  case (Cons s ss)
  then obtain ir1 where s: "stmt_step s ir = Inr ir1" and r: "transform ss ir1 = Inr ir'"
    by (auto split: sum.splits)
  from Cons.IH[OF r stmt_step_distinct[OF s Cons.prems(2)] stmt_step_series[OF s Cons.prems(3)]]
  show ?case .
qed

lemma parsed_chain_type_error:
  assumes "parse fe text = Inr ir" and "series ir \<noteq> []"
  shows "validate ir = Inl PyTypeError"
proof -
  from assms(1) obtain ss where t: "transform ss new_IR = Inr ir"
    by (auto simp: parse_def split: sum.splits)
  have "distinct (map fst (objects new_IR))"
    and "\<forall>c \<in> set (series new_IR). \<exists>xs l. c = PTuple [PList xs, l] \<and> \<not> is_dict l"
    by (simp_all add: new_IR_def)
  from transform_parser_ir[OF t this]
  have d: "distinct (map fst (objects ir))"
    and c: "\<forall>c \<in> set (series ir). \<exists>xs l. c = PTuple [PList xs, l] \<and> \<not> is_dict l" by auto
  from assms(2) obtain c0 rest where sr: "series ir = c0 # rest" by (cases "series ir") auto
  with c obtain xs l where "c0 = PTuple [PList xs, l]" "\<not> is_dict l" by auto
  with sr have "rule_chains ir = Inl PyTypeError"
    by (simp add: rule_chains_def parser_chain_type_error)
  with rule_id_dup_distinct[OF d] show ?thesis by (simp add: validate_unfold)
qed

text \<open>
  C1. The three statements of scenario 1 are transformed into an IR with two objects and
  one chain. \<open>connect_stmt\<close> stores the chain as the pair of the element list and the
  position, while \<open>validate\<close> iterates over each entry of \<open>ir.series\<close> as if it were the
  element list: the first adjacent pair is the list and the position, and the lookup of
  the list in the object table raises \<open>TypeError\<close>. The same holds for every parsed IR
  with a chain (\<open>parsed_chain_type_error\<close>).
\<close>

theorem scenario1_validate:
  "bus_params (1, 1) [PList [PStr ''b1'', PTok ''SP'' '' '', PNum 138]]
      = Inr (PList [PStr ''b1'', PNum 138])
   \<and> add_bus (1, 1) [PList [PTok ''SP'' '' '', PList [PStr ''b1'', PNum 138]]] = Inr bus_b1
   \<and> line_params (2, 1)
        [PList [PStr ''l1'', PTok ''SP'' '' '', PNum 138, PTok ''SP'' '' '',
                PTok ''LINE_TYPE'' ''OHL'', PTok ''SP'' '' '', PNum 10, PTok ''SP'' '' '',
                PNum 1000]]
      = Inr (PList [PStr ''l1'', PNum 138, PTok ''LINE_TYPE'' ''OHL'', PNum 10, PNum 1000])
   \<and> add_line (2, 1)
        [PList [PTok ''SP'' '' '',
                PList [PStr ''l1'', PNum 138, PTok ''LINE_TYPE'' ''OHL'', PNum 10, PNum 1000]]]
      = Inr line_l1
   \<and> transform scenario1 new_IR = Inr scenario1_ir
   \<and> length (objects scenario1_ir) = 2
   \<and> length (series scenario1_ir) = 1
   \<and> validate scenario1_ir = Inl PyTypeError"
proof -
  have a: "bus_params (1, 1) [PList [PStr ''b1'', PTok ''SP'' '' '', PNum 138]]
      = Inr (PList [PStr ''b1'', PNum 138])"
    by (simp add: bus_params_def)
  have b: "add_bus (1, 1) [PList [PTok ''SP'' '' '', PList [PStr ''b1'', PNum 138]]]
      = Inr bus_b1"
    by (simp add: add_bus_def bus_b1_def)
  have c: "line_params (2, 1)
        [PList [PStr ''l1'', PTok ''SP'' '' '', PNum 138, PTok ''SP'' '' '',
                PTok ''LINE_TYPE'' ''OHL'', PTok ''SP'' '' '', PNum 10, PTok ''SP'' '' '',
                PNum 1000]]
      = Inr (PList [PStr ''l1'', PNum 138, PTok ''LINE_TYPE'' ''OHL'', PNum 10, PNum 1000])"
    by (simp add: line_params_def)
  have d: "add_line (2, 1)
        [PList [PTok ''SP'' '' '',
                PList [PStr ''l1'', PNum 138, PTok ''LINE_TYPE'' ''OHL'', PNum 10, PNum 1000]]]
      = Inr line_l1"
    by (simp add: add_line_def line_l1_def)
  have e: "length (objects scenario1_ir) = 2 \<and> length (series scenario1_ir) = 1"
    by (simp add: scenario1_ir_def)
  have f: "validate scenario1_ir = Inl PyTypeError"
    by (simp add: scenario1_ir_def validate_unfold rule_id_dup_def rule_chains_def
        check_chain_def volt_pair_def)
  from a b c d e f scenario1_transform show ?thesis by simp
qed





end
